theory Spec2Isabelle
  imports Main
begin

section \<open>JavaScript values, the object heap and promises\<close>

text \<open>
  Objects are identified by their reference; \<open>===\<close> on objects is equality of
  references. The only values the constructor and the node walk of
  \<^verbatim>\<open>packages/application/src/client.ts\<close> ever inspect are \<open>undefined\<close>,
  \<open>null\<close> and object references.
\<close>

type_synonym ref = nat

datatype jsval = Undefined | Null | Obj ref

text \<open>JavaScript truthiness: \<open>undefined\<close> and \<open>null\<close> are falsy, every object is truthy.\<close>

fun truthy :: "jsval \<Rightarrow> bool" where
  "truthy Undefined = False"
| "truthy Null = False"
| "truthy (Obj r) = True"

text \<open>
  A promise is modelled by its eventual settlement: it stays pending for ever, is
  fulfilled with a value, or is rejected with a reason.
\<close>

datatype settle = Pending | Fulfilled jsval | Rejected jsval

text \<open>
  The objects the constructor allocates. A \<open>CommandLinker\<close> remembers the command
  registry it was constructed with (\<^verbatim>\<open>{ commands: this.commands }\<close>).
\<close>

datatype obj =
    CommandLinker jsval
  | DocumentRegistry
  | ServiceManager
  | Promise settle

text \<open>
  The heap is the list of all objects allocated so far; a reference is an index into it,
  and \<open>new\<close> appends, so a new object never has the reference of an older one.
\<close>

type_synonym heap = "obj list"

definition lookup :: "heap \<Rightarrow> ref \<Rightarrow> obj option" where
  "lookup h r = (if r < length h then Some (h ! r) else None)"

definition new :: "obj \<Rightarrow> heap \<Rightarrow> jsval \<times> heap" where
  "new ob h = (Obj (length h), h @ [ob])"

text \<open>
  The settlement of the promise \<open>v\<close>; it is also the settlement a promise adopts when
  it is resolved with \<open>v\<close>: a promise passes its own state on, any other value fulfils.
\<close>

definition settle_of :: "heap \<Rightarrow> jsval \<Rightarrow> settle" where
  "settle_of h v =
     (case v of
        Obj r \<Rightarrow> (case lookup h r of Some (Promise s) \<Rightarrow> s | _ \<Rightarrow> Fulfilled v)
      | _ \<Rightarrow> Fulfilled v)"

text \<open>
  \<^verbatim>\<open>p.then(f)\<close> with one callback: a new promise that adopts the result of \<open>f\<close> when
  \<open>p\<close> is fulfilled and passes a rejection of \<open>p\<close> on.
\<close>

definition promise_then :: "settle \<Rightarrow> (jsval \<Rightarrow> jsval) \<Rightarrow> heap \<Rightarrow> jsval \<times> heap" where
  "promise_then p f h =
     new (Promise (case p of
                     Pending \<Rightarrow> Pending
                   | Fulfilled v \<Rightarrow> settle_of h (f v)
                   | Rejected e \<Rightarrow> Rejected e)) h"

text \<open>
  \<^verbatim>\<open>p.catch(g)\<close>: a new promise that passes a fulfilment of \<open>p\<close> on and adopts the
  result of \<open>g\<close> when \<open>p\<close> is rejected.
\<close>

definition promise_catch :: "settle \<Rightarrow> (jsval \<Rightarrow> jsval) \<Rightarrow> heap \<Rightarrow> jsval \<times> heap" where
  "promise_catch p g h =
     new (Promise (case p of
                     Pending \<Rightarrow> Pending
                   | Fulfilled v \<Rightarrow> Fulfilled v
                   | Rejected e \<Rightarrow> settle_of h (g e))) h"

text \<open>
  \<^verbatim>\<open>a || b\<close>: the right operand is a computation on the heap that runs only when the
  left operand is falsy.
\<close>

definition or_else :: "jsval \<Rightarrow> (heap \<Rightarrow> jsval \<times> heap) \<Rightarrow> heap \<Rightarrow> jsval \<times> heap" where
  "or_else a b h = (if truthy a then (a, h) else b h)"


section \<open>The DOM and context-menu events\<close>

text \<open>
  The walk reads one property of an event target, \<open>parentNode\<close>. The DOM gives for
  every object \<open>None\<close> when it has no such property (\<^verbatim>\<open>'parentNode' in x\<close> is false)
  and \<open>Some v\<close> when the property is present with value \<open>v\<close>.
\<close>

type_synonym node = ref

type_synonym dom = "node \<Rightarrow> jsval option"

record MouseEvent =
  target :: node


section \<open>The application object\<close>

text \<open>
  The base class \<open>Application\<close> of \<^verbatim>\<open>@phosphor/application\<close> is not part of the file.
  Of its state the subclass reads the command registry and the \<open>started\<close> promise, here
  given by its settlement; the rest is the parameter \<open>'b\<close>.
\<close>

record 'b Application =
  commands :: jsval
  started :: settle
  internals :: 'b

text \<open>
  \<open>JupyterClient.IOptions\<close>: every field is optional, \<open>None\<close> is a field that is not
  present. Reading a field that is not present gives \<open>undefined\<close>.
\<close>

record IOptions =
  docRegistry :: "jsval option"
  commandLinker :: "jsval option"
  serviceManager :: "jsval option"
  restored :: "jsval option"

fun get :: "jsval option \<Rightarrow> jsval" where
  "get None = Undefined"
| "get (Some v) = v"

record 'b JupyterClient =
  base :: "'b Application"
  commandLinker :: jsval
  docRegistry :: jsval
  restored :: jsval
  serviceManager :: jsval
  contextMenuEvent :: "MouseEvent option"

text \<open>
  The constructor. \<open>super\<close> is the base object that \<^verbatim>\<open>super(options)\<close> has built,
  \<open>frame_fires\<close> tells whether the browser ever runs the callback handed to
  \<^verbatim>\<open>requestAnimationFrame\<close>. The field \<open>_contextMenuEvent\<close> has no initialiser and
  starts out undefined.
\<close>

definition JupyterClient_new ::
  "bool \<Rightarrow> 'b Application \<Rightarrow> IOptions \<Rightarrow> heap \<Rightarrow> 'b JupyterClient \<times> heap" where
  "JupyterClient_new frame_fires super options h0 =
     (let (restored0, h1) =
            new (Promise (if frame_fires then Fulfilled Undefined else Pending)) h0;
          (cl, h2) =
            or_else (get (IOptions.commandLinker options))
              (new (CommandLinker (commands super))) h1;
          (dr, h3) =
            or_else (get (IOptions.docRegistry options)) (new DocumentRegistry) h2;
          (rs, h4) =
            or_else (get (IOptions.restored options))
              (\<lambda>h. let (p, h') = promise_then (started super) (\<lambda>_. restored0) h
                    in promise_catch (settle_of h' p) (\<lambda>_. restored0) h') h3;
          (sm, h5) =
            or_else (get (IOptions.serviceManager options)) (new ServiceManager) h4
      in (\<lparr>base = super, commandLinker = cl, docRegistry = dr, restored = rs,
           serviceManager = sm, contextMenuEvent = None\<rparr>, h5))"


section \<open>The node walk\<close>

text \<open>
  The \<open>while\<close> loop of \<open>_getContextMenuNodes\<close>. Its condition is the conjunction of
  \<^verbatim>\<open>'parentNode' in last\<close>, the truthiness of \<^verbatim>\<open>last.parentNode\<close> and
  \<^verbatim>\<open>last !== last.parentNode\<close>, where \<open>last\<close> is \<^verbatim>\<open>nodes[nodes.length - 1]\<close>; its body
  pushes \<^verbatim>\<open>last.parentNode\<close>. Nothing bounds the number of rounds, so the loop is a
  partial function and \<open>None\<close> is a walk that never returns.
\<close>

partial_function (option) push_parents :: "dom \<Rightarrow> node list \<Rightarrow> node list option" where
  "push_parents d nodes =
     (case d (nodes ! (length nodes - 1)) of
        None \<Rightarrow> Some nodes
      | Some Undefined \<Rightarrow> Some nodes
      | Some Null \<Rightarrow> Some nodes
      | Some (Obj p) \<Rightarrow>
          if Obj (nodes ! (length nodes - 1)) \<noteq> Obj p
          then push_parents d (nodes @ [p])
          else Some nodes)"

definition getContextMenuNodes :: "dom \<Rightarrow> 'b JupyterClient \<Rightarrow> node list option" where
  "getContextMenuNodes d this =
     (case contextMenuEvent this of
        None \<Rightarrow> Some []
      | Some event \<Rightarrow> push_parents d [target event])"

text \<open>
  The \<open>for ... of\<close> loop of \<open>contextMenuFirst\<close>. The callback \<open>test\<close> is code of the
  caller: it gets the state and returns it, possibly changed, with its answer.
\<close>

fun first_node :: "(node \<Rightarrow> 's \<Rightarrow> bool \<times> 's) \<Rightarrow> node list \<Rightarrow> 's \<Rightarrow> node option \<times> 's" where
  "first_node test [] s = (None, s)"
| "first_node test (n # ns) s =
     (case test n s of
        (True, s') \<Rightarrow> (Some n, s')
      | (False, s') \<Rightarrow> first_node test ns s')"

text \<open>
  \<open>contextMenuFirst\<close>: the outer \<open>option\<close> is \<open>None\<close> when the walk does not return; the
  inner one is the result, \<open>None\<close> for \<open>undefined\<close>.
\<close>

definition contextMenuFirst ::
  "dom \<Rightarrow> (node \<Rightarrow> 'b JupyterClient \<Rightarrow> bool \<times> 'b JupyterClient) \<Rightarrow> 'b JupyterClient
     \<Rightarrow> (node option \<times> 'b JupyterClient) option" where
  "contextMenuFirst d test this =
     (case getContextMenuNodes d this of
        None \<Rightarrow> None
      | Some nodes \<Rightarrow> Some (first_node test nodes this))"

text \<open>
  \<open>evtContextMenu\<close>: the assignment to \<open>_contextMenuEvent\<close>, then the call of the base
  class's handler, a parameter that works on the base object.
\<close>

definition evtContextMenu ::
  "(MouseEvent \<Rightarrow> 'b Application \<Rightarrow> 'b Application) \<Rightarrow> MouseEvent \<Rightarrow> 'b JupyterClient
     \<Rightarrow> 'b JupyterClient" where
  "evtContextMenu super_evtContextMenu event this =
     (let this1 = this\<lparr>contextMenuEvent := Some event\<rparr>
      in this1\<lparr>base := super_evtContextMenu event (base this1)\<rparr>)"

text \<open>A predicate without effects, as a callback.\<close>

definition pure_test :: "(node \<Rightarrow> bool) \<Rightarrow> node \<Rightarrow> 's \<Rightarrow> bool \<times> 's" where
  "pure_test p n s = (p n, s)"


section \<open>The ancestor chain as the specification describes it\<close>

text \<open>
  These two definitions follow the words of the specification, not the code; the
  theorems below compare the code with them. A node's parent is absent when the node has
  no \<open>parentNode\<close> property or the property is \<open>undefined\<close> or \<open>null\<close>.
\<close>

definition parent_absent :: "dom \<Rightarrow> node \<Rightarrow> bool" where
  "parent_absent d n = (d n = None \<or> d n = Some Undefined \<or> d n = Some Null)"

text \<open>
  An ancestor chain starts at some node, each further element is the parent of the one
  before it and differs from it, and the last element is the first node whose parent is
  absent or is the node itself.
\<close>

fun ancestor_chain :: "dom \<Rightarrow> node list \<Rightarrow> bool" where
  "ancestor_chain d [] = False"
| "ancestor_chain d [n] = (parent_absent d n \<or> d n = Some (Obj n))"
| "ancestor_chain d (n # m # ns) = (d n = Some (Obj m) \<and> m \<noteq> n \<and> ancestor_chain d (m # ns))"


section \<open>Example documents, events and clients\<close>

text \<open>
  The document of the specification's example: node \<open>0\<close> (A) has parent \<open>1\<close> (B), which
  has parent \<open>2\<close> (C), whose \<open>parentNode\<close> is \<open>null\<close>.
\<close>

definition chain_dom :: dom where
  "chain_dom n =
     (if n = 0 then Some (Obj 1) else if n = 1 then Some (Obj 2)
      else if n = 2 then Some Null else None)"

text \<open>A document in which every node \<open>n > 0\<close> has parent \<open>n - 1\<close> and node \<open>0\<close> is its own parent.\<close>

definition self_parent_dom :: dom where
  "self_parent_dom n = Some (Obj (n - 1))"

text \<open>Two targets, \<open>0\<close> and \<open>3\<close>, below the same root \<open>2\<close>.\<close>

definition shared_dom :: dom where
  "shared_dom n =
     (if n = 0 then Some (Obj 2) else if n = 3 then Some (Obj 2)
      else if n = 2 then Some Null else None)"

text \<open>Nodes \<open>0\<close> and \<open>1\<close> are each other's parent: a cycle of length two.\<close>

definition two_cycle_dom :: dom where
  "two_cycle_dom n = (if n = 0 then Some (Obj 1) else Some (Obj 0))"

text \<open>A base handler that counts the events it has seen.\<close>

definition count_events :: "MouseEvent \<Rightarrow> nat Application \<Rightarrow> nat Application" where
  "count_events event app = app\<lparr>internals := Suc (internals app)\<rparr>"

definition client0 :: "nat JupyterClient" where
  "client0 =
     \<lparr>base = \<lparr>commands = Obj 0, started = Fulfilled Undefined, internals = 0\<rparr>,
      commandLinker = Obj 2, docRegistry = Obj 3, restored = Obj 1, serviceManager = Obj 4,
      contextMenuEvent = None\<rparr>"

definition click :: "node \<Rightarrow> MouseEvent" where
  "click n = \<lparr>target = n\<rparr>"

definition is_node :: "node \<Rightarrow> node \<Rightarrow> bool" where
  "is_node m n = (n = m)"

definition no_node :: "node \<Rightarrow> bool" where
  "no_node n = False"


text \<open>Options without any override, and options with all four.\<close>

definition no_options :: IOptions where
  "no_options =
     \<lparr>IOptions.docRegistry = None, IOptions.commandLinker = None,
      IOptions.serviceManager = None, IOptions.restored = None\<rparr>"

text \<open>A heap in which the caller has already built the four collaborators.\<close>

definition caller_heap :: heap where
  "caller_heap = [CommandLinker (Obj 7), DocumentRegistry, ServiceManager, Promise Pending]"

definition all_options :: IOptions where
  "all_options =
     \<lparr>IOptions.docRegistry = Some (Obj 1), IOptions.commandLinker = Some (Obj 0),
      IOptions.serviceManager = Some (Obj 2), IOptions.restored = Some (Obj 3)\<rparr>"

text \<open>A base application whose \<open>started\<close> promise is rejected.\<close>

definition failing_app :: "nat Application" where
  "failing_app = \<lparr>commands = Obj 7, started = Rejected Null, internals = 0\<rparr>"


section \<open>The walk and the ancestor chain\<close>

lemma push_parents_stop:
  "parent_absent d n \<or> d n = Some (Obj n) \<Longrightarrow> push_parents d (pre @ [n]) = Some (pre @ [n])"
  by (subst push_parents.simps) (auto simp: parent_absent_def)

lemma push_parents_step:
  "d n = Some (Obj m) \<Longrightarrow> m \<noteq> n \<Longrightarrow> push_parents d (pre @ [n]) = push_parents d (pre @ [n, m])"
  by (subst push_parents.simps) auto

lemma push_parents_chain:
  "ancestor_chain d (n # ns) \<Longrightarrow> push_parents d (pre @ [n]) = Some (pre @ n # ns)"
proof (induction ns arbitrary: n pre)
  case Nil
  then show ?case by (simp add: push_parents_stop)
next
  case (Cons m ns)
  from Cons.prems have step: "d n = Some (Obj m)" "m \<noteq> n" and rest: "ancestor_chain d (m # ns)"
    by simp_all
  from Cons.IH [OF rest, of "pre @ [n]"]
  have "push_parents d (pre @ [n, m]) = Some (pre @ n # m # ns)" by simp
  with step show ?case by (simp add: push_parents_step)
qed

lemma push_parents_sound:
  "push_parents d nodes = Some res \<Longrightarrow>
     \<forall>pre n. nodes = pre @ [n] \<longrightarrow> (\<exists>ns. res = pre @ n # ns \<and> ancestor_chain d (n # ns))"
proof (induction rule: push_parents.raw_induct [rotated 1, consumes 1])
  case (1 push d nodes res)
  show ?case
  proof (intro allI impI)
    fix pre n assume nodes: "nodes = pre @ [n]"
    show "\<exists>ns. res = pre @ n # ns \<and> ancestor_chain d (n # ns)"
    proof (cases "parent_absent d n \<or> d n = Some (Obj n)")
      case True
      with 1(2) nodes have "res = pre @ [n]"
        by (auto simp: parent_absent_def)
      with True show ?thesis by simp
    next
      case False
      then obtain m where m: "d n = Some (Obj m)" "m \<noteq> n"
        by (cases "d n"; cases "the (d n)") (auto simp: parent_absent_def)
      with 1(2) nodes have "push d (pre @ [n, m]) = Some res" by auto
      from 1(1) [OF this] have "\<exists>ns. res = (pre @ [n]) @ m # ns \<and> ancestor_chain d (m # ns)"
        by (metis append.assoc append_Cons append_Nil)
      then obtain ns where "res = pre @ n # m # ns" "ancestor_chain d (m # ns)" by auto
      with m show ?thesis by auto
    qed
  qed
qed

lemma push_parents_iff:
  "push_parents d [n] = Some nodes \<longleftrightarrow> (\<exists>ns. nodes = n # ns \<and> ancestor_chain d nodes)"
proof
  assume "push_parents d [n] = Some nodes"
  from push_parents_sound [OF this] show "\<exists>ns. nodes = n # ns \<and> ancestor_chain d nodes"
    by auto
next
  assume "\<exists>ns. nodes = n # ns \<and> ancestor_chain d nodes"
  then obtain ns where "nodes = n # ns" "ancestor_chain d (n # ns)" by auto
  with push_parents_chain [of d n ns "[]"] show "push_parents d [n] = Some nodes" by simp
qed

lemma ancestor_chain_nth:
  "ancestor_chain d ns \<longleftrightarrow>
     ns \<noteq> [] \<and>
     (\<forall>i. Suc i < length ns \<longrightarrow> d (ns ! i) = Some (Obj (ns ! Suc i)) \<and> ns ! Suc i \<noteq> ns ! i) \<and>
     (parent_absent d (ns ! (length ns - 1)) \<or>
      d (ns ! (length ns - 1)) = Some (Obj (ns ! (length ns - 1))))"
proof (induction d ns rule: ancestor_chain.induct)
  case (1 d)
  then show ?case by simp
next
  case (2 d n)
  then show ?case by simp
next
  case (3 d n m ns)
  have "(\<forall>i. Suc i < length (n # m # ns) \<longrightarrow>
            d ((n # m # ns) ! i) = Some (Obj ((n # m # ns) ! Suc i)) \<and>
            (n # m # ns) ! Suc i \<noteq> (n # m # ns) ! i) \<longleftrightarrow>
        (d n = Some (Obj m) \<and> m \<noteq> n) \<and>
        (\<forall>i. Suc i < length (m # ns) \<longrightarrow>
            d ((m # ns) ! i) = Some (Obj ((m # ns) ! Suc i)) \<and>
            (m # ns) ! Suc i \<noteq> (m # ns) ! i)"
    (is "(\<forall>i. ?P i) \<longleftrightarrow> ?H \<and> (\<forall>i. ?Q i)")
  proof
    assume all: "\<forall>i. ?P i"
    then have "?P 0" by blast
    then have h: ?H by simp
    have "?Q i" for i using all [rule_format, of "Suc i"] by simp
    with h show "?H \<and> (\<forall>i. ?Q i)" by blast
  next
    assume r: "?H \<and> (\<forall>i. ?Q i)"
    show "\<forall>i. ?P i"
    proof
      fix i show "?P i"
      proof (cases i)
        case 0 with r show ?thesis by simp
      next
        case (Suc j)
        with r [THEN conjunct2, rule_format, of j] show ?thesis by simp
      qed
    qed
  qed
  with 3 show ?case by auto
qed

lemma ancestor_chain_ranked:
  assumes "\<And>n p. d n = Some (Obj p) \<Longrightarrow> p \<noteq> n \<Longrightarrow> rank p < (rank n :: nat)"
  shows "\<exists>ns. ancestor_chain d (n # ns)"
proof (induction "rank n" arbitrary: n rule: less_induct)
  case less
  show ?case
  proof (cases "parent_absent d n \<or> d n = Some (Obj n)")
    case True
    then have "ancestor_chain d [n]" by simp
    then show ?thesis by blast
  next
    case False
    then obtain m where m: "d n = Some (Obj m)" "m \<noteq> n"
      by (cases "d n"; cases "the (d n)") (auto simp: parent_absent_def)
    from assms [OF m] less obtain ns where "ancestor_chain d (m # ns)" by blast
    with m have "ancestor_chain d (n # m # ns)" by simp
    then show ?thesis by blast
  qed
qed

lemma two_cycle_no_chain: "\<not> ancestor_chain two_cycle_dom (n # ns)"
proof (induction ns arbitrary: n)
  case Nil
  show ?case by (simp add: two_cycle_dom_def parent_absent_def)
next
  case (Cons m ns)
  then show ?case by simp
qed

lemma push_parents_two_cycle_diverges: "push_parents two_cycle_dom [n] = None"
proof (cases "push_parents two_cycle_dom [n]")
  case None then show ?thesis .
next
  case (Some nodes)
  then have "\<exists>ns. nodes = n # ns \<and> ancestor_chain two_cycle_dom nodes"
    by (simp only: push_parents_iff)
  with two_cycle_no_chain show ?thesis by blast
qed

lemma first_node_pure_test: "first_node (pure_test p) ns s = (find p ns, s)"
  by (induction ns) (auto simp: pure_test_def)

lemma first_node_frame:
  "\<forall>n s. snd (test n s) = s \<Longrightarrow> snd (first_node test ns s) = s"
proof (induction ns)
  case Nil then show ?case by simp
next
  case (Cons n ns)
  then have "snd (test n s) = s" by blast
  then obtain b where "test n s = (b, s)" by (cases "test n s") auto
  with Cons show ?case by (cases b) auto
qed

lemma first_node_cong:
  "\<forall>n \<in> set ns. test n = test' n \<Longrightarrow> first_node test ns s = first_node test' ns s"
  by (induction ns arbitrary: s) (auto split: prod.splits bool.splits)

lemma first_node_member:
  "first_node test ns s = (Some r, s') \<Longrightarrow> r \<in> set ns"
  by (induction ns arbitrary: s) (auto split: prod.splits bool.splits)

lemma evtContextMenu_event: "contextMenuEvent (evtContextMenu handler event this) = Some event"
  by (simp add: evtContextMenu_def)

lemma evtContextMenu_base: "base (evtContextMenu handler event this) = handler event (base this)"
  by (simp add: evtContextMenu_def)




section \<open>The constructor, field by field\<close>

lemma truthy_Obj: "truthy v \<longleftrightarrow> (\<exists>r. v = Obj r)"
  by (cases v) auto

lemmas new_unfold =
  JupyterClient_new_def or_else_def new_def promise_then_def promise_catch_def

lemma new_commandLinker:
  assumes "JupyterClient_new frame_fires super options h = (this, h')"
  shows "\<exists>r. commandLinker this = Obj r \<and>
           (if truthy (get (IOptions.commandLinker options))
            then commandLinker this = get (IOptions.commandLinker options)
            else length h \<le> r \<and> lookup h' r = Some (CommandLinker (commands super)))"
  using assms
  by (auto simp: new_unfold lookup_def nth_append truthy_Obj split: if_splits prod.splits)

lemma new_docRegistry:
  assumes "JupyterClient_new frame_fires super options h = (this, h')"
  shows "\<exists>r. docRegistry this = Obj r \<and>
           (if truthy (get (IOptions.docRegistry options))
            then docRegistry this = get (IOptions.docRegistry options)
            else length h \<le> r \<and> lookup h' r = Some DocumentRegistry)"
  using assms
  by (auto simp: new_unfold lookup_def nth_append truthy_Obj split: if_splits prod.splits)

lemma new_serviceManager:
  assumes "JupyterClient_new frame_fires super options h = (this, h')"
  shows "\<exists>r. serviceManager this = Obj r \<and>
           (if truthy (get (IOptions.serviceManager options))
            then serviceManager this = get (IOptions.serviceManager options)
            else length h \<le> r \<and> lookup h' r = Some ServiceManager)"
  using assms
  by (auto simp: new_unfold lookup_def nth_append truthy_Obj split: if_splits prod.splits)

lemma new_restored:
  assumes "JupyterClient_new frame_fires super options h = (this, h')"
  shows "\<exists>r. restored this = Obj r \<and>
           (if truthy (get (IOptions.restored options))
            then restored this = get (IOptions.restored options)
            else length h \<le> r \<and>
                 lookup h' r = Some (Promise (case started super of
                                               Pending \<Rightarrow> Pending
                                             | Fulfilled v \<Rightarrow> settle_of h' (Obj (length h))
                                             | Rejected e \<Rightarrow> settle_of h' (Obj (length h)))))"
  using assms
  by (auto simp: new_unfold lookup_def nth_append truthy_Obj settle_of_def
      split: if_splits prod.splits settle.splits)

lemma new_default_promise:
  assumes "JupyterClient_new frame_fires super options h = (this, h')"
  shows "settle_of h' (Obj (length h)) = (if frame_fires then Fulfilled Undefined else Pending)"
  using assms
  by (auto simp: new_unfold lookup_def nth_append truthy_Obj settle_of_def
      split: if_splits prod.splits settle.splits)

lemma new_heap_grows:
  assumes "JupyterClient_new frame_fires super options h = (this, h')"
  shows "\<exists>added. h' = h @ added"
  using assms
  by (auto simp: new_unfold split: if_splits prod.splits)

lemma new_failing_app:
  "JupyterClient_new True failing_app no_options [] =
     (\<lparr>base = failing_app, commandLinker = Obj 1, docRegistry = Obj 2, restored = Obj 4,
       serviceManager = Obj 5, contextMenuEvent = None\<rparr>,
      [Promise (Fulfilled Undefined), CommandLinker (Obj 7), DocumentRegistry,
       Promise (Rejected Null), Promise (Fulfilled Undefined), ServiceManager])"
  by (simp add: new_unfold no_options_def failing_app_def settle_of_def lookup_def)

lemma getContextMenuNodes_chain_dom:
  "getContextMenuNodes chain_dom (evtContextMenu count_events (click 0) client0) = Some [0, 1, 2]"
  using push_parents_chain [of chain_dom 0 "[1, 2]" "[]"]
  by (simp add: getContextMenuNodes_def evtContextMenu_event click_def chain_dom_def
        parent_absent_def)


section \<open>Claims about the node walk and \<open>contextMenuFirst\<close>\<close>

text \<open>
  Claim C1. When a context-menu event is recorded and the target's ancestor chain is
  finite (it reaches a node whose parent is absent or the node itself),
  \<open>contextMenuFirst\<close> with a predicate returns the first element of that chain, read
  from the target upward, for which the predicate holds, and \<open>undefined\<close> when there is
  none. The chain A, B, C with the predicates "is B" and "never" is the instance that
  follows the theorem.
\<close>

theorem contextMenuFirst_first_match:
  assumes "contextMenuEvent this = Some event"
    and "ancestor_chain d (target event # ns)"
  shows "contextMenuFirst d (pure_test p) this = Some (find p (target event # ns), this)"
proof -
  from assms(2) push_parents_chain [of d "target event" ns "[]"]
  have "push_parents d [target event] = Some (target event # ns)" by simp
  with assms(1) show ?thesis
    by (simp add: contextMenuFirst_def getContextMenuNodes_def first_node_pure_test
          del: first_node.simps find.simps)
qed

theorem contextMenuFirst_first_match_witness:
  "contextMenuEvent (evtContextMenu count_events (click 0) client0) = Some (click 0) \<and>
   ancestor_chain chain_dom (target (click 0) # [1, 2]) \<and>
   contextMenuFirst chain_dom (pure_test (is_node 1)) (evtContextMenu count_events (click 0) client0)
     = Some (Some 1, evtContextMenu count_events (click 0) client0) \<and>
   contextMenuFirst chain_dom (pure_test no_node) (evtContextMenu count_events (click 0) client0)
     = Some (None, evtContextMenu count_events (click 0) client0)"
  using contextMenuFirst_first_match
          [of "evtContextMenu count_events (click 0) client0" "click 0" chain_dom "[1, 2]" "is_node 1"]
        contextMenuFirst_first_match
          [of "evtContextMenu count_events (click 0) client0" "click 0" chain_dom "[1, 2]" no_node]
  by (simp add: evtContextMenu_event click_def chain_dom_def parent_absent_def is_node_def no_node_def)

text \<open>
  Claim C5. With an event recorded, the walk returns exactly the lists that start at
  the event's target, in which every further element is the \<open>parentNode\<close> of the one
  before it and a different node, and whose last element is a node whose parent is
  absent or the node itself. No earlier element is such a node, since each of them has a
  parent other than itself.
\<close>

theorem getContextMenuNodes_chain:
  assumes "contextMenuEvent this = Some event"
  shows "getContextMenuNodes d this = Some nodes \<longleftrightarrow>
           nodes \<noteq> [] \<and> nodes ! 0 = target event \<and>
           (\<forall>i. Suc i < length nodes \<longrightarrow>
              d (nodes ! i) = Some (Obj (nodes ! Suc i)) \<and> nodes ! Suc i \<noteq> nodes ! i) \<and>
           (parent_absent d (nodes ! (length nodes - 1)) \<or>
            d (nodes ! (length nodes - 1)) = Some (Obj (nodes ! (length nodes - 1))))"
proof -
  have "getContextMenuNodes d this = Some nodes \<longleftrightarrow>
          (\<exists>ns. nodes = target event # ns \<and> ancestor_chain d nodes)"
    using assms by (simp add: getContextMenuNodes_def push_parents_iff)
  also have "\<dots> \<longleftrightarrow> nodes \<noteq> [] \<and> nodes ! 0 = target event \<and> ancestor_chain d nodes"
    by (cases nodes) auto
  finally show ?thesis
    by (subst (asm) ancestor_chain_nth) blast
qed

theorem getContextMenuNodes_chain_witness:
  "contextMenuEvent (evtContextMenu count_events (click 0) client0) = Some (click 0) \<and>
   getContextMenuNodes chain_dom (evtContextMenu count_events (click 0) client0) = Some [0, 1, 2]"
  using getContextMenuNodes_chain
          [of "evtContextMenu count_events (click 0) client0" "click 0" chain_dom "[0, 1, 2]"]
  by (simp add: evtContextMenu_event click_def chain_dom_def parent_absent_def
        less_Suc_eq nth_Cons')

text \<open>
  Claim C6. When no context-menu event has ever been recorded, \<open>contextMenuFirst\<close>
  returns \<open>undefined\<close> for every callback, without calling it and without changing the
  client.
\<close>

theorem contextMenuFirst_no_event:
  assumes "contextMenuEvent this = None"
  shows "contextMenuFirst d test this = Some (None, this)"
  using assms by (simp add: contextMenuFirst_def getContextMenuNodes_def)

theorem contextMenuFirst_no_event_witness:
  "contextMenuEvent client0 = None \<and>
   contextMenuFirst chain_dom (pure_test (is_node 1)) client0 = Some (None, client0)"
  using contextMenuFirst_no_event [of client0 chain_dom "pure_test (is_node 1)"]
  by (simp add: client0_def)

text \<open>
  Claim C8. The loop stops at a node that is its own parent, so the walk returns
  whenever going from a node to a parent other than itself cannot go on for ever: here,
  whenever some measure on the nodes decreases at each such step. Nodes that are their
  own parent are allowed anywhere. Then \<open>contextMenuFirst\<close> returns too. The loop has no
  guard against longer cycles: \<open>push_parents_two_cycle_diverges\<close> above shows a walk
  that never returns on a cycle of length two.
\<close>

theorem getContextMenuNodes_terminates:
  assumes "\<forall>n p. d n = Some (Obj p) \<and> p \<noteq> n \<longrightarrow> rank p < (rank n :: nat)"
  shows "(\<exists>nodes. getContextMenuNodes d this = Some nodes) \<and>
         (\<exists>r this'. contextMenuFirst d test this = Some (r, this'))"
proof -
  have "\<exists>nodes. getContextMenuNodes d this = Some nodes"
  proof (cases "contextMenuEvent this")
    case None
    then show ?thesis by (simp add: getContextMenuNodes_def)
  next
    case (Some event)
    from assms have "\<And>n p. d n = Some (Obj p) \<Longrightarrow> p \<noteq> n \<Longrightarrow> rank p < rank n" by blast
    from ancestor_chain_ranked [of d rank "target event", OF this]
    obtain ns where "ancestor_chain d (target event # ns)" by blast
    from push_parents_chain [OF this, of "[]"] Some show ?thesis
      by (simp add: getContextMenuNodes_def)
  qed
  then show ?thesis
    by (auto simp: contextMenuFirst_def intro: prod.exhaust)
qed

theorem getContextMenuNodes_terminates_witness:
  "self_parent_dom 0 = Some (Obj 0) \<and>
   contextMenuEvent (evtContextMenu count_events (click 2) client0) = Some (click 2) \<and>
   (\<exists>nodes. getContextMenuNodes self_parent_dom (evtContextMenu count_events (click 2) client0)
      = Some nodes) \<and>
   (\<exists>r this'. contextMenuFirst self_parent_dom (pure_test no_node)
      (evtContextMenu count_events (click 2) client0) = Some (r, this'))"
proof -
  have h: "\<forall>n p. self_parent_dom n = Some (Obj p) \<and> p \<noteq> n \<longrightarrow> p < n"
    by (auto simp: self_parent_dom_def)
  from getContextMenuNodes_terminates
         [of self_parent_dom "\<lambda>n. n" "evtContextMenu count_events (click 2) client0"
             "pure_test no_node", OF h]
  show ?thesis by (simp add: self_parent_dom_def evtContextMenu_event)
qed

text \<open>
  Claim C9. \<open>contextMenuFirst\<close> assigns to no field. When the callback leaves the state
  as it is and the walk returns, the call returns the client it was given: the recorded
  event and the four collaborator fields are all unchanged. The document is only read.
\<close>

theorem contextMenuFirst_no_mutation:
  assumes "\<forall>n s. snd (test n s) = s"
    and "getContextMenuNodes d this = Some nodes"
  shows "\<exists>r. contextMenuFirst d test this = Some (r, this)"
proof -
  from assms(1) have "snd (first_node test nodes this) = this" by (rule first_node_frame)
  then obtain r where "first_node test nodes this = (r, this)"
    by (cases "first_node test nodes this") auto
  with assms(2) show ?thesis by (simp add: contextMenuFirst_def)
qed

theorem contextMenuFirst_no_mutation_witness:
  "(\<forall>n s. snd (pure_test (is_node 1) n (s :: nat JupyterClient)) = s) \<and>
   getContextMenuNodes chain_dom (evtContextMenu count_events (click 0) client0) = Some [0, 1, 2] \<and>
   (\<exists>r. contextMenuFirst chain_dom (pure_test (is_node 1))
           (evtContextMenu count_events (click 0) client0)
         = Some (r, evtContextMenu count_events (click 0) client0))"
proof -
  have p: "\<forall>n s. snd (pure_test (is_node 1) n (s :: nat JupyterClient)) = s"
    by (simp add: pure_test_def)
  from contextMenuFirst_no_mutation [OF p getContextMenuNodes_chain_dom] p
    getContextMenuNodes_chain_dom
  show ?thesis by simp
qed


section \<open>Claims about \<open>evtContextMenu\<close>\<close>

text \<open>
  Claim C7, as amended. \<open>evtContextMenu\<close> stores its event in place of the one
  recorded before and hands the event to the base class's handler, which has then seen
  both events in order. After a second event whose target has the finite ancestor chain
  \<open>target event2 # ns\<close>, the walk returns that chain whatever the first event was,
  \<open>contextMenuFirst\<close> returns nodes of that chain only, and it calls the callback on
  nodes of that chain only: two callbacks that agree on the chain give the same result.
  A node of the first event's chain is searched exactly when it also lies on the second
  event's chain.
\<close>

theorem evtContextMenu_replaces:
  assumes "ancestor_chain d (target event2 # ns)"
  shows "contextMenuEvent (evtContextMenu handler event2 (evtContextMenu handler event1 this))
           = Some event2 \<and>
         base (evtContextMenu handler event2 (evtContextMenu handler event1 this))
           = handler event2 (handler event1 (base this)) \<and>
         getContextMenuNodes d (evtContextMenu handler event2 (evtContextMenu handler event1 this))
           = Some (target event2 # ns) \<and>
         contextMenuFirst d test (evtContextMenu handler event2 (evtContextMenu handler event1 this))
           = Some (first_node test (target event2 # ns)
                     (evtContextMenu handler event2 (evtContextMenu handler event1 this))) \<and>
         (\<forall>r s. contextMenuFirst d test
                   (evtContextMenu handler event2 (evtContextMenu handler event1 this))
                 = Some (Some r, s) \<longrightarrow> r \<in> set (target event2 # ns)) \<and>
         (\<forall>test'. (\<forall>n \<in> set (target event2 # ns). test' n = test n) \<longrightarrow>
            contextMenuFirst d test'
              (evtContextMenu handler event2 (evtContextMenu handler event1 this))
            = contextMenuFirst d test
              (evtContextMenu handler event2 (evtContextMenu handler event1 this)))"
proof -
  let ?c = "evtContextMenu handler event2 (evtContextMenu handler event1 this)"
  have ev: "contextMenuEvent ?c = Some event2" by (rule evtContextMenu_event)
  have b: "base ?c = handler event2 (handler event1 (base this))"
    by (simp add: evtContextMenu_base)
  from push_parents_chain [OF assms, of "[]"] ev
  have g: "getContextMenuNodes d ?c = Some (target event2 # ns)"
    by (simp add: getContextMenuNodes_def)
  then have f: "\<And>t. contextMenuFirst d t ?c = Some (first_node t (target event2 # ns) ?c)"
    by (simp add: contextMenuFirst_def)
  have m: "\<forall>r s. contextMenuFirst d test ?c = Some (Some r, s) \<longrightarrow> r \<in> set (target event2 # ns)"
    using first_node_member [of test "target event2 # ns" ?c] by (simp only: f) blast
  have c: "\<forall>test'. (\<forall>n \<in> set (target event2 # ns). test' n = test n) \<longrightarrow>
            contextMenuFirst d test' ?c = contextMenuFirst d test ?c"
    using first_node_cong [of "target event2 # ns" _ test ?c] by (simp only: f) blast
  from ev b g f [of test] m c show ?thesis by blast
qed

theorem evtContextMenu_replaces_witness:
  "ancestor_chain shared_dom (target (click 3) # [2]) \<and>
   contextMenuEvent (evtContextMenu count_events (click 3) (evtContextMenu count_events (click 0) client0))
     = Some (click 3) \<and>
   internals (base (evtContextMenu count_events (click 3) (evtContextMenu count_events (click 0) client0)))
     = 2 \<and>
   getContextMenuNodes shared_dom
     (evtContextMenu count_events (click 3) (evtContextMenu count_events (click 0) client0))
     = Some [3, 2]"
  using evtContextMenu_replaces [of shared_dom "click 3" "[2]" count_events "click 0" client0
          "pure_test (is_node 2)"]
  by (simp add: click_def shared_dom_def parent_absent_def count_events_def client0_def)

text \<open>
  The claim as it was stated, that after the second event no node of the first event's
  chain is ever searched, fails when the two targets share an ancestor: in \<open>shared_dom\<close>
  the first event's chain is \<open>[0, 2]\<close>, and after the second event, on target \<open>3\<close>,
  \<open>contextMenuFirst\<close> finds node \<open>2\<close>.
\<close>

theorem evtContextMenu_shared_ancestor_counterexample:
  "getContextMenuNodes shared_dom (evtContextMenu count_events (click 0) client0) = Some [0, 2] \<and>
   map_option fst
     (contextMenuFirst shared_dom (pure_test (is_node 2))
        (evtContextMenu count_events (click 3) (evtContextMenu count_events (click 0) client0)))
     = Some (Some 2)"
proof -
  have a: "ancestor_chain shared_dom [0, 2]" and d: "ancestor_chain shared_dom [3, 2]"
    by (simp_all add: shared_dom_def parent_absent_def)
  from push_parents_chain [OF a, of "[]"] push_parents_chain [OF d, of "[]"]
  show ?thesis
    by (simp add: contextMenuFirst_def getContextMenuNodes_def evtContextMenu_event click_def
          pure_test_def is_node_def)
qed


section \<open>Claims about the constructor\<close>

text \<open>
  Claim C2. When the options carry no truthy \<open>restored\<close> and the base application's
  \<open>started\<close> promise is rejected, the \<open>restored\<close> field is a promise that settles as the
  default promise does, the one allocated first by the constructor at reference
  \<open>length h\<close>: it is fulfilled with \<open>undefined\<close> once the animation frame has fired, and it
  is never rejected.
\<close>

theorem restored_resolves_when_started_rejects:
  assumes "\<not> truthy (get (IOptions.restored options))"
    and "started super = Rejected e"
    and "JupyterClient_new frame_fires super options h = (this, h')"
  shows "settle_of h' (restored this) = settle_of h' (Obj (length h)) \<and>
         settle_of h' (restored this) = (if frame_fires then Fulfilled Undefined else Pending) \<and>
         (\<forall>x. settle_of h' (restored this) \<noteq> Rejected x)"
proof -
  from new_restored [OF assms(3)] assms(1,2)
  obtain r where r: "restored this = Obj r"
    "lookup h' r = Some (Promise (settle_of h' (Obj (length h))))"
    by auto
  then have "settle_of h' (restored this) = settle_of h' (Obj (length h))"
    by (simp add: settle_of_def)
  with new_default_promise [OF assms(3)] show ?thesis by simp
qed

theorem restored_resolves_when_started_rejects_witness:
  "\<not> truthy (get (IOptions.restored no_options)) \<and>
   started failing_app = Rejected Null \<and>
   restored (fst (JupyterClient_new True failing_app no_options [])) = Obj 4 \<and>
   settle_of (snd (JupyterClient_new True failing_app no_options [])) (Obj 4) = Fulfilled Undefined"
proof -
  have a: "\<not> truthy (get (IOptions.restored no_options))" by (simp add: no_options_def)
  have b: "started failing_app = Rejected Null" by (simp add: failing_app_def)
  from restored_resolves_when_started_rejects [OF a b new_failing_app, THEN conjunct2, THEN conjunct1]
  have "settle_of (snd (JupyterClient_new True failing_app no_options [])) (Obj 4)
          = Fulfilled Undefined"
    by (simp add: new_failing_app)
  with a b show ?thesis by (simp add: new_failing_app)
qed

text \<open>
  Claim C3. When all four overrides are supplied as objects, the four fields hold
  exactly the supplied references, and the only object the constructor allocates is the
  default promise, which is not used.
\<close>

theorem overrides_kept:
  assumes "IOptions.commandLinker options = Some (Obj a)"
    and "IOptions.docRegistry options = Some (Obj b)"
    and "IOptions.serviceManager options = Some (Obj s)"
    and "IOptions.restored options = Some (Obj p)"
  shows "JupyterClient_new frame_fires super options h =
           (\<lparr>base = super, commandLinker = Obj a, docRegistry = Obj b, restored = Obj p,
             serviceManager = Obj s, contextMenuEvent = None\<rparr>,
            h @ [Promise (if frame_fires then Fulfilled Undefined else Pending)])"
  using assms by (simp add: JupyterClient_new_def or_else_def new_def)

theorem overrides_kept_witness:
  "IOptions.commandLinker all_options = Some (Obj 0) \<and>
   IOptions.docRegistry all_options = Some (Obj 1) \<and>
   IOptions.serviceManager all_options = Some (Obj 2) \<and>
   IOptions.restored all_options = Some (Obj 3) \<and>
   JupyterClient_new True failing_app all_options caller_heap =
     (\<lparr>base = failing_app, commandLinker = Obj 0, docRegistry = Obj 1, restored = Obj 3,
       serviceManager = Obj 2, contextMenuEvent = None\<rparr>,
      caller_heap @ [Promise (Fulfilled Undefined)])"
  using overrides_kept [of all_options 0 1 2 3 True failing_app caller_heap]
  by (simp add: all_options_def)



text \<open>
  Claim C10. The test on an override is truthiness: for each of the four option fields,
  constructing with the field present and \<open>null\<close> or \<open>undefined\<close> gives the same client
  and the same heap as constructing with the field absent. In both cases the default is
  substituted: the resulting field is a reference that the heap before did not have, and
  in the heap after it holds the default for that field, a command linker for the
  application's command registry, a document registry, a service manager, and for
  \<open>restored\<close> the promise derived from \<open>started\<close> and the animation frame. So the field
  is never \<open>null\<close>.
\<close>

theorem falsy_override_as_absent:
  assumes "v = Null \<or> v = Undefined"
  shows "JupyterClient_new frame_fires super (options\<lparr>IOptions.commandLinker := Some v\<rparr>) h =
           JupyterClient_new frame_fires super (options\<lparr>IOptions.commandLinker := None\<rparr>) h \<and>
         JupyterClient_new frame_fires super (options\<lparr>IOptions.docRegistry := Some v\<rparr>) h =
           JupyterClient_new frame_fires super (options\<lparr>IOptions.docRegistry := None\<rparr>) h \<and>
         JupyterClient_new frame_fires super (options\<lparr>IOptions.serviceManager := Some v\<rparr>) h =
           JupyterClient_new frame_fires super (options\<lparr>IOptions.serviceManager := None\<rparr>) h \<and>
         JupyterClient_new frame_fires super (options\<lparr>IOptions.restored := Some v\<rparr>) h =
           JupyterClient_new frame_fires super (options\<lparr>IOptions.restored := None\<rparr>) h \<and>
         (\<exists>r. commandLinker (fst (JupyterClient_new frame_fires super
                 (options\<lparr>IOptions.commandLinker := Some v\<rparr>) h)) = Obj r \<and>
              length h \<le> r \<and>
              lookup (snd (JupyterClient_new frame_fires super
                 (options\<lparr>IOptions.commandLinker := Some v\<rparr>) h)) r
                = Some (CommandLinker (commands super))) \<and>
         (\<exists>r. docRegistry (fst (JupyterClient_new frame_fires super
                 (options\<lparr>IOptions.docRegistry := Some v\<rparr>) h)) = Obj r \<and>
              length h \<le> r \<and>
              lookup (snd (JupyterClient_new frame_fires super
                 (options\<lparr>IOptions.docRegistry := Some v\<rparr>) h)) r
                = Some DocumentRegistry) \<and>
         (\<exists>r. serviceManager (fst (JupyterClient_new frame_fires super
                 (options\<lparr>IOptions.serviceManager := Some v\<rparr>) h)) = Obj r \<and>
              length h \<le> r \<and>
              lookup (snd (JupyterClient_new frame_fires super
                 (options\<lparr>IOptions.serviceManager := Some v\<rparr>) h)) r
                = Some ServiceManager) \<and>
         (\<exists>r. restored (fst (JupyterClient_new frame_fires super
                 (options\<lparr>IOptions.restored := Some v\<rparr>) h)) = Obj r \<and>
              length h \<le> r \<and>
              lookup (snd (JupyterClient_new frame_fires super
                 (options\<lparr>IOptions.restored := Some v\<rparr>) h)) r
                = Some (Promise (case started super of
                                   Pending \<Rightarrow> Pending
                                 | Fulfilled x \<Rightarrow>
                                     if frame_fires then Fulfilled Undefined else Pending
                                 | Rejected e \<Rightarrow>
                                     if frame_fires then Fulfilled Undefined else Pending)))"
proof -
  from assms have f: "\<not> truthy v" by auto
  have e1: "JupyterClient_new frame_fires super (options\<lparr>IOptions.commandLinker := Some v\<rparr>) h =
           JupyterClient_new frame_fires super (options\<lparr>IOptions.commandLinker := None\<rparr>) h"
    using f by (simp add: JupyterClient_new_def or_else_def)
  have e2: "JupyterClient_new frame_fires super (options\<lparr>IOptions.docRegistry := Some v\<rparr>) h =
           JupyterClient_new frame_fires super (options\<lparr>IOptions.docRegistry := None\<rparr>) h"
    using f by (simp add: JupyterClient_new_def or_else_def)
  have e3: "JupyterClient_new frame_fires super (options\<lparr>IOptions.serviceManager := Some v\<rparr>) h =
           JupyterClient_new frame_fires super (options\<lparr>IOptions.serviceManager := None\<rparr>) h"
    using f by (simp add: JupyterClient_new_def or_else_def)
  have e4: "JupyterClient_new frame_fires super (options\<lparr>IOptions.restored := Some v\<rparr>) h =
           JupyterClient_new frame_fires super (options\<lparr>IOptions.restored := None\<rparr>) h"
    using f by (simp add: JupyterClient_new_def or_else_def)
  have r1: "\<exists>r. commandLinker (fst (JupyterClient_new frame_fires super
                 (options\<lparr>IOptions.commandLinker := Some v\<rparr>) h)) = Obj r \<and>
              length h \<le> r \<and>
              lookup (snd (JupyterClient_new frame_fires super
                 (options\<lparr>IOptions.commandLinker := Some v\<rparr>) h)) r
                = Some (CommandLinker (commands super))"
    using f new_commandLinker [OF prod.collapse [symmetric],
            of frame_fires super "options\<lparr>IOptions.commandLinker := Some v\<rparr>" h]
    by auto
  have r2: "\<exists>r. docRegistry (fst (JupyterClient_new frame_fires super
                 (options\<lparr>IOptions.docRegistry := Some v\<rparr>) h)) = Obj r \<and>
              length h \<le> r \<and>
              lookup (snd (JupyterClient_new frame_fires super
                 (options\<lparr>IOptions.docRegistry := Some v\<rparr>) h)) r
                = Some DocumentRegistry"
    using f new_docRegistry [OF prod.collapse [symmetric],
            of frame_fires super "options\<lparr>IOptions.docRegistry := Some v\<rparr>" h]
    by auto
  have r3: "\<exists>r. serviceManager (fst (JupyterClient_new frame_fires super
                 (options\<lparr>IOptions.serviceManager := Some v\<rparr>) h)) = Obj r \<and>
              length h \<le> r \<and>
              lookup (snd (JupyterClient_new frame_fires super
                 (options\<lparr>IOptions.serviceManager := Some v\<rparr>) h)) r
                = Some ServiceManager"
    using f new_serviceManager [OF prod.collapse [symmetric],
            of frame_fires super "options\<lparr>IOptions.serviceManager := Some v\<rparr>" h]
    by auto
  have d: "settle_of (snd (JupyterClient_new frame_fires super
                 (options\<lparr>IOptions.restored := Some v\<rparr>) h)) (Obj (length h))
             = (if frame_fires then Fulfilled Undefined else Pending)"
    by (rule new_default_promise [OF prod.collapse [symmetric]])
  have r4: "\<exists>r. restored (fst (JupyterClient_new frame_fires super
                 (options\<lparr>IOptions.restored := Some v\<rparr>) h)) = Obj r \<and>
              length h \<le> r \<and>
              lookup (snd (JupyterClient_new frame_fires super
                 (options\<lparr>IOptions.restored := Some v\<rparr>) h)) r
                = Some (Promise (case started super of
                                   Pending \<Rightarrow> Pending
                                 | Fulfilled x \<Rightarrow>
                                     if frame_fires then Fulfilled Undefined else Pending
                                 | Rejected e \<Rightarrow>
                                     if frame_fires then Fulfilled Undefined else Pending))"
  proof -
    from f new_restored [OF prod.collapse [symmetric],
           of frame_fires super "options\<lparr>IOptions.restored := Some v\<rparr>" h]
    obtain r where r: "restored (fst (JupyterClient_new frame_fires super
                 (options\<lparr>IOptions.restored := Some v\<rparr>) h)) = Obj r" "length h \<le> r"
      and l: "lookup (snd (JupyterClient_new frame_fires super
                 (options\<lparr>IOptions.restored := Some v\<rparr>) h)) r
                = Some (Promise (case started super of
                     Pending \<Rightarrow> Pending
                   | Fulfilled x \<Rightarrow> settle_of (snd (JupyterClient_new frame_fires super
                       (options\<lparr>IOptions.restored := Some v\<rparr>) h)) (Obj (length h))
                   | Rejected e \<Rightarrow> settle_of (snd (JupyterClient_new frame_fires super
                       (options\<lparr>IOptions.restored := Some v\<rparr>) h)) (Obj (length h))))"
      by auto
    from l have "lookup (snd (JupyterClient_new frame_fires super
                 (options\<lparr>IOptions.restored := Some v\<rparr>) h)) r
                = Some (Promise (case started super of
                                   Pending \<Rightarrow> Pending
                                 | Fulfilled x \<Rightarrow>
                                     if frame_fires then Fulfilled Undefined else Pending
                                 | Rejected e \<Rightarrow>
                                     if frame_fires then Fulfilled Undefined else Pending))"
      by (simp only: d)
    with r show ?thesis by blast
  qed
  from e1 e2 e3 e4 r1 r2 r3 r4 show ?thesis by blast
qed

theorem falsy_override_as_absent_witness:
  "(Null = Null \<or> Null = Undefined) \<and>
   JupyterClient_new True failing_app (all_options\<lparr>IOptions.commandLinker := Some Null\<rparr>) caller_heap =
     JupyterClient_new True failing_app (all_options\<lparr>IOptions.commandLinker := None\<rparr>) caller_heap \<and>
   commandLinker (fst (JupyterClient_new True failing_app
                         (all_options\<lparr>IOptions.commandLinker := Some Null\<rparr>) caller_heap)) = Obj 5 \<and>
   lookup (snd (JupyterClient_new True failing_app
                  (all_options\<lparr>IOptions.commandLinker := Some Null\<rparr>) caller_heap)) 5
     = Some (CommandLinker (Obj 7)) \<and>
   lookup caller_heap 5 = None \<and>
   docRegistry (fst (JupyterClient_new True failing_app
                       (all_options\<lparr>IOptions.docRegistry := Some Null\<rparr>) caller_heap)) = Obj 5 \<and>
   lookup (snd (JupyterClient_new True failing_app
                  (all_options\<lparr>IOptions.docRegistry := Some Null\<rparr>) caller_heap)) 5
     = Some DocumentRegistry \<and>
   serviceManager (fst (JupyterClient_new True failing_app
                       (all_options\<lparr>IOptions.serviceManager := Some Null\<rparr>) caller_heap)) = Obj 5 \<and>
   lookup (snd (JupyterClient_new True failing_app
                  (all_options\<lparr>IOptions.serviceManager := Some Null\<rparr>) caller_heap)) 5
     = Some ServiceManager \<and>
   restored (fst (JupyterClient_new True failing_app
                       (all_options\<lparr>IOptions.restored := Some Null\<rparr>) caller_heap)) = Obj 6 \<and>
   lookup (snd (JupyterClient_new True failing_app
                  (all_options\<lparr>IOptions.restored := Some Null\<rparr>) caller_heap)) 6
     = Some (Promise (Fulfilled Undefined))"
  using falsy_override_as_absent [of Null True failing_app all_options caller_heap]
  by (simp add: new_unfold all_options_def caller_heap_def failing_app_def lookup_def
        settle_of_def)

end
